theory Spec2Isabelle
  imports Complex_Main "HOL-Library.Word"
begin

section \<open>The circuit and its state vector\<close>

text \<open>
  The program keeps one global single-qubit circuit \<open>circ\<close>; every key press appends at most
  one gate to it, and every time the state is needed the whole circuit is simulated again
  from the initial state \<open>(1, 0)\<close> by the state-vector simulator. The circuit is the list of
  the gates appended so far, the state vector a pair of complex amplitudes.
  Floating-point numbers are modelled as exact reals and complex numbers.
\<close>

type_synonym statevec = "complex \<times> complex"

datatype gate = H | X | Y | Z | RX real | RY real | RZ real

text \<open>
  Modelled from the spec: the matrices of the gates. The source only calls the circuit
  library (\<open>circ.h\<close>, \<open>circ.x\<close>, \<open>circ.y\<close>, \<open>circ.z\<close>, \<open>circ.rx\<close>, \<open>circ.ry\<close>, \<open>circ.rz\<close>)
  and its simulator, which are not part of the repository; the spec gives the Hadamard
  matrix \<open>1/\<surd>2 [[1,1],[1,-1]]\<close>, the standard Pauli matrices and the standard axis rotation
  matrices, and says that applying a gate is the matrix-vector product.
\<close>

fun apply_gate :: "gate \<Rightarrow> statevec \<Rightarrow> statevec" where
  "apply_gate H (a, b) = ((a + b) / complex_of_real (sqrt 2), (a - b) / complex_of_real (sqrt 2))"
| "apply_gate X (a, b) = (b, a)"
| "apply_gate Y (a, b) = (- \<i> * b, \<i> * a)"
| "apply_gate Z (a, b) = (a, - b)"
| "apply_gate (RX t) (a, b) =
     (complex_of_real (cos (t / 2)) * a - \<i> * complex_of_real (sin (t / 2)) * b,
      - \<i> * complex_of_real (sin (t / 2)) * a + complex_of_real (cos (t / 2)) * b)"
| "apply_gate (RY t) (a, b) =
     (complex_of_real (cos (t / 2)) * a - complex_of_real (sin (t / 2)) * b,
      complex_of_real (sin (t / 2)) * a + complex_of_real (cos (t / 2)) * b)"
| "apply_gate (RZ t) (a, b) = (cis (- t / 2) * a, cis (t / 2) * b)"

definition statevector :: "gate list \<Rightarrow> statevec" where
  "statevector circ = fold apply_gate circ (1, 0)"

definition norm2 :: "statevec \<Rightarrow> real" where
  "norm2 sv = (cmod (fst sv))\<^sup>2 + (cmod (snd sv))\<^sup>2"

subsection \<open>Key presses\<close>

text \<open>
  \<open>key_press\<close> compares the key symbol with each gate key in turn, in independent \<open>if\<close>
  statements, each of which appends its gate to the circuit.
\<close>

definition key_gates :: "string \<Rightarrow> gate list \<Rightarrow> gate list" where
  "key_gates ch circ0 =
     (let circ = (if ch = ''h'' then circ0 @ [H] else circ0);
          circ = (if ch = ''1'' then circ @ [X] else circ);
          circ = (if ch = ''2'' then circ @ [Y] else circ);
          circ = (if ch = ''3'' then circ @ [Z] else circ);
          circ = (if ch = ''x'' then circ @ [RX (pi / 6)] else circ);
          circ = (if ch = ''y'' then circ @ [RY (pi / 6)] else circ);
          circ = (if ch = ''z'' then circ @ [RZ (pi / 6)] else circ);
          circ = (if ch = ''X'' then circ @ [RX (- pi / 6)] else circ);
          circ = (if ch = ''Y'' then circ @ [RY (- pi / 6)] else circ);
          circ = (if ch = ''Z'' then circ @ [RZ (- pi / 6)] else circ)
      in circ)"

definition press_keys :: "string list \<Rightarrow> gate list" where
  "press_keys ks = fold key_gates ks []"

section \<open>The sonifier\<close>

subsection \<open>Pitch table\<close>

datatype py_error = UnboundLocalError | TypeError | ValueError

text \<open>
  \<open>sound\<close> assigns the frequency \<open>f\<close> in a chain of independent \<open>if\<close> statements; a note
  name that matches none of them leaves \<open>f\<close> unbound, and its first use (in the left
  channel) raises.
\<close>

definition note_freq :: "string \<Rightarrow> real option" where
  "note_freq note =
     (let f = None;
          f = (if note = ''C'' then Some (440 * 2 powr (- 9 / 12)) else f);
          f = (if note = ''C#'' \<or> note = ''Db'' then Some (440 * 2 powr (- 8 / 12)) else f);
          f = (if note = ''D'' then Some (440 * 2 powr (- 7 / 12)) else f);
          f = (if note = ''D#'' \<or> note = ''Eb'' then Some (440 * 2 powr (- 6 / 12)) else f);
          f = (if note = ''E'' then Some (440 * 2 powr (- 5 / 12)) else f);
          f = (if note = ''F'' then Some (440 * 2 powr (- 4 / 12)) else f);
          f = (if note = ''F#'' \<or> note = ''Gb'' then Some (440 * 2 powr (- 3 / 12)) else f);
          f = (if note = ''G'' then Some (440 * 2 powr (- 2 / 12)) else f);
          f = (if note = ''G#'' \<or> note = ''Ab'' then Some (440 * 2 powr (- 1 / 12)) else f);
          f = (if note = ''A'' then Some (440 * 2 powr (0 / 12)) else f);
          f = (if note = ''A#'' \<or> note = ''Bb'' then Some (440 * 2 powr (1 / 12)) else f);
          f = (if note = ''B'' then Some (440 * 2 powr (2 / 12)) else f)
      in f)"

definition entry_list :: "string list" where
  "entry_list = [''c'', ''C'', ''d'', ''D'', ''e'', ''f'', ''F'', ''g'', ''G'', ''a'', ''A'', ''b'']"

definition note_list :: "string list" where
  "note_list = [''C'', ''C#'', ''D'', ''D#'', ''E'', ''F'', ''F#'', ''G'', ''G#'', ''A'', ''A#'', ''B'']"

subsection \<open>Angles read from the state vector\<close>

text \<open>
  The state vector is a complex array, so \<open>np.arccos(sv[0])\<close> is the complex principal
  arccosine \<open>arccos z = - \<i> ln (z + \<i> \<surd>(1 - z\<^sup>2))\<close>, whose real part is the argument of
  \<open>z + \<i> \<surd>(1 - z\<^sup>2)\<close> and whose imaginary part is minus the logarithm of its modulus.
  \<open>np.angle\<close> is the argument in \<open>(-\<pi>, \<pi>]\<close>, with \<open>angle 0 = 0\<close>.
\<close>

definition np_arccos :: "complex \<Rightarrow> complex" where
  "np_arccos z = (let w = z + \<i> * csqrt (1 - z\<^sup>2) in Complex (Arg w) (- ln (cmod w)))"

definition theta :: "statevec \<Rightarrow> real" where
  "theta sv = Re (2 * np_arccos (fst sv))"

definition phi :: "statevec \<Rightarrow> real" where
  "phi sv = (let p = Arg (snd sv) in if p < 0 then 2 * pi + p else p)"

subsection \<open>Waveform synthesis\<close>

definition fs :: nat where
  "fs = 44100"

definition seconds :: real where
  "seconds = 0.5"

text \<open>Conversion to an integer drops the fractional part (rounds towards zero).\<close>

definition trunc :: "real \<Rightarrow> int" where
  "trunc x = (if 0 \<le> x then \<lfloor>x\<rfloor> else \<lceil>x\<rceil>)"

text \<open>
  \<open>np.linspace(start, stop, num, False)\<close> with an integer count: \<open>num\<close> points, the end
  point excluded.
\<close>

definition linspace :: "real \<Rightarrow> real \<Rightarrow> nat \<Rightarrow> real list" where
  "linspace start stop num = map (\<lambda>i. start + real i * ((stop - start) / real num)) [0..<num]"

text \<open>
  \<open>sound\<close> passes the count as the float \<open>seconds * fs\<close>. What \<open>np.linspace\<close> does with a
  count that is not an integer depends on the installed library, which the program does
  not fix: from release 1.18 on the call raises \<open>TypeError\<close>; before, the count was
  converted with \<open>int\<close> (a deprecated use), and a negative count raised \<open>ValueError\<close>.
  The rule is a parameter of the model.
\<close>

datatype count_rule = Coerce | Reject

definition float_count :: "count_rule \<Rightarrow> real \<Rightarrow> py_error + nat" where
  "float_count np num =
     (case np of
        Reject \<Rightarrow> Inl TypeError
      | Coerce \<Rightarrow> (if trunc num < 0 then Inl ValueError else Inr (nat (trunc num))))"

definition time_vector :: "count_rule \<Rightarrow> py_error + real list" where
  "time_vector np =
     (case float_count np (seconds * real fs) of
        Inl e \<Rightarrow> Inl e
      | Inr num \<Rightarrow> Inr (linspace 0 seconds num))"

definition left_channel :: "real list \<Rightarrow> real \<Rightarrow> real \<Rightarrow> real list" where
  "left_channel t th f = map (\<lambda>x. cos (th / 2) * sin (f * x * 2 * pi)) t"

definition right_channel :: "real list \<Rightarrow> real \<Rightarrow> real \<Rightarrow> real \<Rightarrow> real list" where
  "right_channel t th ph f =
     map (\<lambda>x. sin (th / 2) * sin (2 powr (ph / (2 * pi)) * f * x * 2 * pi + pi / 2)) t"

text \<open>\<open>np.dstack((left, right))[0]\<close>: one row \<open>(left, right)\<close> per sample.\<close>

definition synth :: "real list \<Rightarrow> real \<Rightarrow> real \<Rightarrow> real \<Rightarrow> (real \<times> real) list" where
  "synth t th ph f = zip (left_channel t th f) (right_channel t th ph f)"

subsection \<open>Normalisation and quantisation\<close>

text \<open>\<open>np.max(np.abs(note))\<close>: the largest magnitude over both channels.\<close>

definition flat :: "(real \<times> real) list \<Rightarrow> real list" where
  "flat note = concat (map (\<lambda>(l, r). [l, r]) note)"

definition peak :: "(real \<times> real) list \<Rightarrow> real" where
  "peak note = Max (set (map abs (flat note)))"

text \<open>
  Array division does not raise: a finite quotient, an infinity for a nonzero numerator
  over zero, and not-a-number for \<open>0 / 0\<close>.
\<close>

datatype npfloat = Finite real | PosInf | NegInf | NaN

definition np_div :: "real \<Rightarrow> real \<Rightarrow> npfloat" where
  "np_div x y = (if y \<noteq> 0 then Finite (x / y) else if x = 0 then NaN else if 0 < x then PosInf else NegInf)"

definition normalise :: "(real \<times> real) list \<Rightarrow> (npfloat \<times> npfloat) list" where
  "normalise note =
     (let m = peak note
      in map (\<lambda>(l, r). (np_div (l * (2 ^ 15 - 1)) m, np_div (r * (2 ^ 15 - 1)) m)) note)"

text \<open>
  \<open>astype(np.int16)\<close> drops the fractional part. The conversion goes through a 32-bit
  integer of which the low 16 bits are kept: a value outside the 16-bit range wraps
  around, and a value with no 32-bit image (not a number, an infinity, a magnitude beyond
  32 bits) gives 0.
\<close>

fun astype_int16 :: "npfloat \<Rightarrow> 16 word" where
  "astype_int16 (Finite v) =
     (if - (2 ^ 31) \<le> trunc v \<and> trunc v < 2 ^ 31 then word_of_int (trunc v) else 0)"
| "astype_int16 PosInf = 0"
| "astype_int16 NegInf = 0"
| "astype_int16 NaN = 0"

definition quantise :: "(npfloat \<times> npfloat) list \<Rightarrow> (16 word \<times> 16 word) list" where
  "quantise buf = map (\<lambda>(l, r). (astype_int16 l, astype_int16 r)) buf"

text \<open>
  \<open>sound\<close> simulates the circuit, reads the two angles, builds the time vector,
  synthesises, normalises and quantises; the result is the buffer handed to the audio
  playback. The time vector is built before the frequency is first used.
\<close>

definition note_buffer :: "real list \<Rightarrow> gate list \<Rightarrow> real \<Rightarrow> (real \<times> real) list" where
  "note_buffer t circ f = (let sv = statevector circ in synth t (theta sv) (phi sv) f)"

definition sound :: "count_rule \<Rightarrow> gate list \<Rightarrow> string \<Rightarrow> py_error + (16 word \<times> 16 word) list" where
  "sound np circ note =
     (case time_vector np of
        Inl e \<Rightarrow> Inl e
      | Inr t \<Rightarrow>
          (case note_freq note of
             None \<Rightarrow> Inl UnboundLocalError
           | Some f \<Rightarrow> Inr (quantise (normalise (note_buffer t circ f)))))"

text \<open>
  After the gate tests, \<open>key_press\<close> walks the twelve note keys and sonifies the circuit
  for each one that matches; the result is the new circuit and the sounds played.
\<close>

definition key_press ::
  "count_rule \<Rightarrow> string \<Rightarrow> gate list \<Rightarrow> gate list \<times> (py_error + (16 word \<times> 16 word) list) list" where
  "key_press np ch circ0 =
     (let circ = key_gates ch circ0
      in (circ, map (\<lambda>i. sound np circ (note_list ! i)) (filter (\<lambda>i. ch = entry_list ! i) [0..<12])))"

section \<open>Gates preserve the norm\<close>

lemma cmod2: "(cmod z)\<^sup>2 = Re z * Re z + Im z * Im z"
  unfolding cmod_power2 by (simp add: power2_eq_square)

lemma cs1: "cos (t::real) * cos t + sin t * sin t = 1"
  using sin_cos_squared_add2 [of t] by (simp add: power2_eq_square)

lemma cs1_complex:
  "complex_of_real (cos t) * complex_of_real (cos t)
     + complex_of_real (sin t) * complex_of_real (sin t) = 1"
  by (metis cs1 of_real_add of_real_mult of_real_1)

lemma neg_half: "cos (- (t::real) / 2) = cos (t / 2)" "sin (- t / 2) = - sin (t / 2)"
  by (simp_all add: minus_divide_left [symmetric])

lemma rot_sq:
  fixes c s :: real
  assumes "c * c + s * s = 1"
  shows "(c * p + s * q) * (c * p + s * q) + (c * q - s * p) * (c * q - s * p) = p * p + q * q"
proof -
  have "(c * p + s * q) * (c * p + s * q) + (c * q - s * p) * (c * q - s * p)
      = (c * c + s * s) * (p * p + q * q)"
    by (simp add: algebra_simps)
  then show ?thesis using assms by simp
qed

lemma norm2_H: "norm2 (apply_gate H (a, b)) = norm2 (a, b)"
proof -
  have "(cmod ((a + b) / complex_of_real (sqrt 2)))\<^sup>2 = ((cmod (a + b))\<^sup>2) / 2"
    by (simp add: norm_divide power_divide)
  moreover have "(cmod ((a - b) / complex_of_real (sqrt 2)))\<^sup>2 = ((cmod (a - b))\<^sup>2) / 2"
    by (simp add: norm_divide power_divide)
  ultimately show ?thesis
    by (simp add: norm2_def cmod2 field_simps)
qed

lemma norm2_RX: "norm2 (apply_gate (RX t) (a, b)) = norm2 (a, b)"
proof -
  let ?c = "cos (t / 2)" and ?s = "sin (t / 2)"
  have 1: "(?c * Re a + ?s * Im b) * (?c * Re a + ?s * Im b)
         + (?c * Im b - ?s * Re a) * (?c * Im b - ?s * Re a) = Re a * Re a + Im b * Im b"
    by (rule rot_sq [OF cs1])
  have 2: "(?c * Re b + ?s * Im a) * (?c * Re b + ?s * Im a)
         + (?c * Im a - ?s * Re b) * (?c * Im a - ?s * Re b) = Re b * Re b + Im a * Im a"
    by (rule rot_sq [OF cs1])
  have "norm2 (apply_gate (RX t) (a, b)) =
      ((?c * Re a + ?s * Im b) * (?c * Re a + ?s * Im b)
         + (?c * Im b - ?s * Re a) * (?c * Im b - ?s * Re a))
    + ((?c * Re b + ?s * Im a) * (?c * Re b + ?s * Im a)
         + (?c * Im a - ?s * Re b) * (?c * Im a - ?s * Re b))"
    by (simp add: norm2_def cmod2 algebra_simps)
  then show ?thesis using 1 2 by (simp add: norm2_def cmod2)
qed

lemma norm2_RY: "norm2 (apply_gate (RY t) (a, b)) = norm2 (a, b)"
proof -
  let ?c = "cos (t / 2)" and ?s = "sin (t / 2)"
  have 1: "(?c * Re b + ?s * Re a) * (?c * Re b + ?s * Re a)
         + (?c * Re a - ?s * Re b) * (?c * Re a - ?s * Re b) = Re b * Re b + Re a * Re a"
    by (rule rot_sq [OF cs1])
  have 2: "(?c * Im b + ?s * Im a) * (?c * Im b + ?s * Im a)
         + (?c * Im a - ?s * Im b) * (?c * Im a - ?s * Im b) = Im b * Im b + Im a * Im a"
    by (rule rot_sq [OF cs1])
  have "norm2 (apply_gate (RY t) (a, b)) =
      ((?c * Re b + ?s * Re a) * (?c * Re b + ?s * Re a)
         + (?c * Re a - ?s * Re b) * (?c * Re a - ?s * Re b))
    + ((?c * Im b + ?s * Im a) * (?c * Im b + ?s * Im a)
         + (?c * Im a - ?s * Im b) * (?c * Im a - ?s * Im b))"
    by (simp add: norm2_def cmod2 algebra_simps)
  then show ?thesis using 1 2 by (simp add: norm2_def cmod2)
qed

lemma apply_gate_norm2: "norm2 (apply_gate g sv) = norm2 sv"
proof (cases sv)
  case (Pair a b)
  show ?thesis
  proof (cases g)
    case H then show ?thesis using Pair norm2_H by simp
  next
    case X then show ?thesis using Pair by (simp add: norm2_def)
  next
    case Y then show ?thesis using Pair by (simp add: norm2_def norm_mult)
  next
    case Z then show ?thesis using Pair by (simp add: norm2_def)
  next
    case (RX t) then show ?thesis using Pair norm2_RX by simp
  next
    case (RY t) then show ?thesis using Pair norm2_RY by simp
  next
    case (RZ t) then show ?thesis using Pair by (simp add: norm2_def norm_mult)
  qed
qed

lemma fold_apply_gate_norm2: "norm2 (fold apply_gate gs sv) = norm2 sv"
  by (induction gs arbitrary: sv) (simp_all add: apply_gate_norm2)

text \<open>
  C3. Unit norm is an invariant: the state vector of every circuit, whatever gates it is
  made of (and so of every circuit built by any sequence of key presses, whose rotations
  are by \<open>\<plusminus>\<pi>/6\<close>), has \<open>|a0|\<^sup>2 + |a1|\<^sup>2 = 1\<close> in exact arithmetic.
\<close>

theorem unit_norm_invariant:
  "norm2 (statevector gs) = 1 \<and> norm2 (statevector (press_keys ks)) = 1"
  by (simp add: statevector_def fold_apply_gate_norm2) (simp add: norm2_def)

section \<open>Inverse rotations and the Hadamard involution\<close>

lemma RX_inverse: "apply_gate (RX (- t)) (apply_gate (RX t) sv) = sv"
proof (cases sv)
  case (Pair a b)
  let ?c = "complex_of_real (cos (t / 2))" and ?s = "complex_of_real (sin (t / 2))"
  have 1: "?c * (?c * a - \<i> * ?s * b) + \<i> * ?s * (- \<i> * ?s * a + ?c * b)
         = (?c * ?c + ?s * ?s) * a"
    by (simp add: algebra_simps)
  have 2: "\<i> * ?s * (?c * a - \<i> * ?s * b) + ?c * (- \<i> * ?s * a + ?c * b)
         = (?c * ?c + ?s * ?s) * b"
    by (simp add: algebra_simps)
  show ?thesis using Pair 1 2 cs1_complex [of "t / 2"] neg_half [of t]
    by simp
qed

lemma RY_inverse: "apply_gate (RY (- t)) (apply_gate (RY t) sv) = sv"
proof (cases sv)
  case (Pair a b)
  let ?c = "complex_of_real (cos (t / 2))" and ?s = "complex_of_real (sin (t / 2))"
  have 1: "?c * (?c * a - ?s * b) + ?s * (?s * a + ?c * b) = (?c * ?c + ?s * ?s) * a"
    by (simp add: algebra_simps)
  have 2: "?c * (?s * a + ?c * b) - ?s * (?c * a - ?s * b) = (?c * ?c + ?s * ?s) * b"
    by (simp add: algebra_simps)
  show ?thesis using Pair 1 2 cs1_complex [of "t / 2"] neg_half [of t]
    by simp
qed

lemma RZ_inverse: "apply_gate (RZ (- t)) (apply_gate (RZ t) sv) = sv"
proof (cases sv)
  case (Pair a b)
  have "cis (t / 2) * (cis (- t / 2) * a) = a"
    by (simp add: mult.assoc [symmetric] cis_mult)
  moreover have "cis (- t / 2) * (cis (t / 2) * b) = b"
    by (simp add: mult.assoc [symmetric] cis_mult)
  ultimately show ?thesis using Pair by simp
qed

text \<open>
  C7. For every state vector, the rotation by \<open>+\<pi>/6\<close> about an axis followed by the
  rotation by \<open>-\<pi>/6\<close> about the same axis gives the state back, for each of the three
  axes; these are the gates of the keys \<open>x\<close>/\<open>X\<close>, \<open>y\<close>/\<open>Y\<close> and \<open>z\<close>/\<open>Z\<close>.
\<close>

theorem rotation_inverse:
  "apply_gate (RX (- pi / 6)) (apply_gate (RX (pi / 6)) sv) = sv
   \<and> apply_gate (RY (- pi / 6)) (apply_gate (RY (pi / 6)) sv) = sv
   \<and> apply_gate (RZ (- pi / 6)) (apply_gate (RZ (pi / 6)) sv) = sv
   \<and> key_gates ''X'' (key_gates ''x'' []) = [RX (pi / 6), RX (- pi / 6)]
   \<and> key_gates ''Y'' (key_gates ''y'' []) = [RY (pi / 6), RY (- pi / 6)]
   \<and> key_gates ''Z'' (key_gates ''z'' []) = [RZ (pi / 6), RZ (- pi / 6)]"
  using RX_inverse [of "pi / 6" sv] RY_inverse [of "pi / 6" sv] RZ_inverse [of "pi / 6" sv]
  by (simp add: key_gates_def)

text \<open>
  C8. The Hadamard gate \<open>1/\<surd>2 [[1,1],[1,-1]]\<close> is an involution: applied twice to any
  state vector it gives the state back.
\<close>

theorem hadamard_involution: "apply_gate H (apply_gate H sv) = sv"
proof (cases sv)
  case (Pair a b)
  have r: "complex_of_real (sqrt 2) * complex_of_real (sqrt 2) = 2"
    by (metis of_real_mult of_real_numeral real_sqrt_mult_self abs_numeral)
  have "((a + b) / complex_of_real (sqrt 2) + (a - b) / complex_of_real (sqrt 2))
          / complex_of_real (sqrt 2) = a"
    using r by (simp add: add_divide_distrib [symmetric])
  moreover have "((a + b) / complex_of_real (sqrt 2) - (a - b) / complex_of_real (sqrt 2))
          / complex_of_real (sqrt 2) = b"
    using r by (simp add: diff_divide_distrib [symmetric])
  ultimately show ?thesis using Pair by simp
qed

section \<open>Facts about the synthesis\<close>

lemma sample_count: "trunc (seconds * real fs) = 22050"
  by (simp add: seconds_def fs_def trunc_def)

lemma time_vector_Coerce: "time_vector Coerce = Inr (map (\<lambda>i. real i / 44100) [0..<22050])"
  by (simp add: time_vector_def float_count_def sample_count) (simp add: linspace_def seconds_def)

lemma time_vector_Reject: "time_vector Reject = Inl TypeError"
  by (simp add: time_vector_def float_count_def)

lemma time_vector_Inr:
  assumes "time_vector np = Inr t"
  shows "t = map (\<lambda>i. real i / 44100) [0..<22050]"
  using assms by (cases np) (simp_all add: time_vector_Coerce time_vector_Reject)

lemma length_time_vector: "time_vector np = Inr t \<Longrightarrow> length t = 22050"
  by (drule time_vector_Inr) simp

lemma time_vector_nth: "time_vector np = Inr t \<Longrightarrow> i < 22050 \<Longrightarrow> t ! i = real i / 44100"
  by (drule time_vector_Inr) simp

lemma length_synth: "length (synth t th ph f) = length t"
  by (simp add: synth_def left_channel_def right_channel_def)

lemma synth_nth:
  assumes "time_vector np = Inr t" "i < 22050"
  shows "synth t th ph f ! i =
    (cos (th / 2) * sin (2 * pi * f * (real i / 44100)),
     sin (th / 2) * sin (2 * pi * f * (real i / 44100) * 2 powr (ph / (2 * pi)) + pi / 2))"
proof -
  have len: "i < length t" using assms by (simp add: length_time_vector)
  have ti: "t ! i = real i / 44100" using assms by (rule time_vector_nth)
  have "synth t th ph f ! i = (left_channel t th f ! i, right_channel t th ph f ! i)"
    using len by (simp add: synth_def left_channel_def right_channel_def)
  moreover have "left_channel t th f ! i = cos (th / 2) * sin (2 * pi * f * (real i / 44100))"
    using len by (simp add: left_channel_def ti mult_ac)
  moreover have "right_channel t th ph f ! i
      = sin (th / 2) * sin (2 * pi * f * (real i / 44100) * 2 powr (ph / (2 * pi)) + pi / 2)"
    using len by (simp add: right_channel_def ti mult_ac)
  ultimately show ?thesis by simp
qed

lemma phi_range: "0 \<le> phi sv \<and> phi sv < 2 * pi"
  using Arg_bounded [of "snd sv"] pi_gt_zero by (auto simp: phi_def Let_def)

lemma length_normalise: "length (normalise buf) = length buf"
  by (simp add: normalise_def Let_def)

lemma length_quantise: "length (quantise buf) = length buf"
  by (simp add: quantise_def)

lemma flat_set: "set (flat buf) = fst ` set buf \<union> snd ` set buf"
  by (induction buf) (auto simp: flat_def)

lemma peak_ge_fst: "(l, r) \<in> set buf \<Longrightarrow> \<bar>l\<bar> \<le> peak buf"
  unfolding peak_def by (rule Max_ge) (force simp: flat_set)+

lemma peak_ge_snd: "(l, r) \<in> set buf \<Longrightarrow> \<bar>r\<bar> \<le> peak buf"
  unfolding peak_def by (rule Max_ge) (force simp: flat_set)+

lemma note_freq_range:
  assumes "note \<in> set note_list"
  shows "\<exists>f. note_freq note = Some f \<and> 0 < f \<and> f < 22050"
proof -
  have b: "0 < 440 * 2 powr (k::real) \<and> 440 * 2 powr k < 22050" if "k \<le> 1" for k
  proof -
    have "2 powr k \<le> (2::real)" using powr_mono [of k 1 "2::real"] that by simp
    then show ?thesis by simp
  qed
  from assms consider "note = ''C''" | "note = ''C#''" | "note = ''D''" | "note = ''D#''"
    | "note = ''E''" | "note = ''F''" | "note = ''F#''" | "note = ''G''" | "note = ''G#''"
    | "note = ''A''" | "note = ''A#''" | "note = ''B''"
    by (auto simp: note_list_def)
  then show ?thesis
  proof cases
    case 1 then show ?thesis using b [of "- 9 / 12"] by (simp add: note_freq_def) next
    case 2 then show ?thesis using b [of "- 8 / 12"] by (simp add: note_freq_def) next
    case 3 then show ?thesis using b [of "- 7 / 12"] by (simp add: note_freq_def) next
    case 4 then show ?thesis using b [of "- 6 / 12"] by (simp add: note_freq_def) next
    case 5 then show ?thesis using b [of "- 5 / 12"] by (simp add: note_freq_def) next
    case 6 then show ?thesis using b [of "- 4 / 12"] by (simp add: note_freq_def) next
    case 7 then show ?thesis using b [of "- 3 / 12"] by (simp add: note_freq_def) next
    case 8 then show ?thesis using b [of "- 2 / 12"] by (simp add: note_freq_def) next
    case 9 then show ?thesis using b [of "- 1 / 12"] by (simp add: note_freq_def) next
    case 10 then show ?thesis using b [of "0 / 12"] by (simp add: note_freq_def) next
    case 11 then show ?thesis using b [of "1 / 12"] by (simp add: note_freq_def) next
    case 12 then show ?thesis using b [of "2 / 12"] by (simp add: note_freq_def)
  qed
qed

lemma synth_peak_pos:
  assumes t: "time_vector np = Inr t" and f: "0 < f" "f < 22050"
  shows "0 < peak (synth t th ph f)"
proof -
  let ?buf = "synth t th ph f"
  have len: "length ?buf = 22050" using t by (simp add: length_synth length_time_vector)
  have s0: "?buf ! 0 = (0, sin (th / 2))"
    using synth_nth [OF t, of 0 th ph f] by simp
  have s1: "?buf ! 1 = (cos (th / 2) * sin (2 * pi * f * (1 / 44100)),
     sin (th / 2) * sin (2 * pi * f * (1 / 44100) * 2 powr (ph / (2 * pi)) + pi / 2))"
    using synth_nth [OF t, of 1 th ph f] by simp
  have m0: "?buf ! 0 \<in> set ?buf" by (rule nth_mem) (simp add: len)
  have m1: "?buf ! 1 \<in> set ?buf" by (rule nth_mem) (simp add: len)
  have sinpos: "0 < sin (2 * pi * f * (1 / 44100))"
  proof (rule sin_gt_zero)
    show "0 < 2 * pi * f * (1 / 44100)" using f by simp
    have "2 * pi * f * (1 / 44100) = pi * (f / 22050)" by simp
    also have "\<dots> < pi * 1" using f by (intro mult_strict_left_mono) simp_all
    finally show "2 * pi * f * (1 / 44100) < pi" by simp
  qed
  show ?thesis
  proof (cases "sin (th / 2) = 0")
    case False
    have "\<bar>sin (th / 2)\<bar> \<le> peak ?buf"
      using peak_ge_snd [of 0 "sin (th / 2)" ?buf] m0 s0 by simp
    with False show ?thesis by simp
  next
    case True
    have "cos (th / 2) \<noteq> 0" using True sin_cos_squared_add [of "th / 2"] by auto
    then have nz: "cos (th / 2) * sin (2 * pi * f * (1 / 44100)) \<noteq> 0" using sinpos by simp
    have "\<bar>cos (th / 2) * sin (2 * pi * f * (1 / 44100))\<bar> \<le> peak ?buf"
      using peak_ge_fst [of "cos (th / 2) * sin (2 * pi * f * (1 / 44100))" _ ?buf] m1 s1 by simp
    with nz show ?thesis by linarith
  qed
qed

lemma trunc_bound:
  assumes "\<bar>x\<bar> \<le> 32767"
  shows "- 32767 \<le> trunc x \<and> trunc x \<le> 32767"
proof (cases "0 \<le> x")
  case True
  then have "trunc x = \<lfloor>x\<rfloor>" by (simp add: trunc_def)
  moreover have "\<lfloor>x\<rfloor> \<le> 32767" using assms True by (simp add: floor_le_iff)
  moreover have "0 \<le> \<lfloor>x\<rfloor>" using True by simp
  ultimately show ?thesis by simp
next
  case False
  then have "trunc x = \<lceil>x\<rceil>" by (simp add: trunc_def)
  moreover have "- 32767 \<le> \<lceil>x\<rceil>" using assms False by (simp add: le_ceiling_iff)
  moreover have "\<lceil>x\<rceil> \<le> 0" using False by (simp add: ceiling_le_iff)
  ultimately show ?thesis by simp
qed

lemma scaled_bound:
  fixes v m :: real
  assumes "\<bar>v\<bar> \<le> m" "0 < m"
  shows "\<bar>v * (2 ^ 15 - 1) / m\<bar> \<le> 32767"
proof -
  have "\<bar>v * (2 ^ 15 - 1) / m\<bar> = \<bar>v\<bar> * 32767 / m" using assms by (simp add: abs_mult)
  also have "\<dots> \<le> m * 32767 / m" using assms by (intro divide_right_mono mult_right_mono) simp_all
  also have "\<dots> = 32767" using assms by simp
  finally show ?thesis .
qed

lemma astype_scaled:
  assumes "\<bar>v\<bar> \<le> m" "0 < m"
  shows "sint (astype_int16 (np_div (v * (2 ^ 15 - 1)) m)) = trunc (v * (2 ^ 15 - 1) / m)
         \<and> - 32767 \<le> trunc (v * (2 ^ 15 - 1) / m) \<and> trunc (v * (2 ^ 15 - 1) / m) \<le> 32767"
proof -
  let ?k = "trunc (v * (2 ^ 15 - 1) / m)"
  have k: "- 32767 \<le> ?k \<and> ?k \<le> 32767" by (rule trunc_bound [OF scaled_bound [OF assms]])
  have d: "np_div (v * (2 ^ 15 - 1)) m = Finite (v * (2 ^ 15 - 1) / m)"
    using assms by (simp add: np_div_def)
  have "signed_take_bit 15 ?k = ?k"
    using k by (intro signed_take_bit_int_eq_self) simp_all
  then have s: "sint (word_of_int ?k :: 16 word) = ?k"
    by (simp add: sint_sbintrunc')
  have "astype_int16 (Finite (v * (2 ^ 15 - 1) / m)) = word_of_int ?k"
    using k by simp
  then show ?thesis using k d s by simp
qed

lemma quantise_normalise_nth:
  assumes "i < length buf"
  shows "quantise (normalise buf) ! i =
    (astype_int16 (np_div (fst (buf ! i) * (2 ^ 15 - 1)) (peak buf)),
     astype_int16 (np_div (snd (buf ! i) * (2 ^ 15 - 1)) (peak buf)))"
  using assms by (simp add: quantise_def normalise_def Let_def split_def)

section \<open>Facts about the polar angle\<close>

lemma theta_eq: "theta sv = 2 * Arg (fst sv + \<i> * csqrt (1 - (fst sv)\<^sup>2))"
  by (simp add: theta_def np_arccos_def Let_def)

lemma arccos_real_amp:
  assumes "Im z = 0" "\<bar>Re z\<bar> \<le> 1"
  shows "Arg (z + \<i> * csqrt (1 - z\<^sup>2)) = arccos (Re z)"
proof -
  let ?x = "Re z"
  have z: "z = complex_of_real ?x" using assms(1) by (simp add: complex_eq_iff)
  have x2: "?x\<^sup>2 \<le> 1" using assms(2) by (simp add: abs_square_le_1)
  have u: "1 - z\<^sup>2 = complex_of_real (1 - ?x\<^sup>2)" by (subst z) simp
  have "csqrt (1 - z\<^sup>2) = complex_of_real (sqrt (1 - ?x\<^sup>2))"
    unfolding u using x2 by simp
  then have w: "z + \<i> * csqrt (1 - z\<^sup>2) = Complex ?x (sqrt (1 - ?x\<^sup>2))"
    using assms(1) by (simp add: complex_eq_iff)
  have "cis (arccos ?x) = Complex ?x (sqrt (1 - ?x\<^sup>2))"
    using assms(2) by (simp add: complex_eq_iff sin_arccos_abs cos_arccos_abs)
  then have "sgn (z + \<i> * csqrt (1 - z\<^sup>2)) = cis (arccos ?x)"
    using w by (metis sgn_cis)
  moreover have "- pi < arccos ?x" using arccos_lbound [of ?x] assms(2) pi_gt_zero by linarith
  moreover have "arccos ?x \<le> pi" using arccos_ubound [of ?x] assms(2) by linarith
  ultimately show ?thesis by (rule cis_Arg_unique)
qed

lemma wz_quadratic:
  "(z + \<i> * csqrt (1 - z\<^sup>2)) * (z - \<i> * csqrt (1 - z\<^sup>2)) = 1"
proof -
  have "(z + \<i> * csqrt (1 - z\<^sup>2)) * (z - \<i> * csqrt (1 - z\<^sup>2)) = z\<^sup>2 + (csqrt (1 - z\<^sup>2))\<^sup>2"
    by (simp add: algebra_simps power2_eq_square)
  then show ?thesis by simp
qed

lemma wz_nonzero: "z + \<i> * csqrt (1 - z\<^sup>2) \<noteq> 0"
  using wz_quadratic [of z] by auto

lemma wz_Im_nonneg: "0 \<le> Im (z + \<i> * csqrt (1 - z\<^sup>2))"
proof -
  let ?u = "1 - z\<^sup>2"
  have "cmod (z\<^sup>2) - cmod 1 \<le> cmod (z\<^sup>2 - 1)" by (rule norm_triangle_ineq2)
  then have "(cmod z)\<^sup>2 - 1 \<le> cmod ?u" by (simp add: norm_power norm_minus_commute)
  moreover have "Re ?u = 1 - (Re z)\<^sup>2 + (Im z)\<^sup>2" by (simp add: power2_eq_square)
  moreover have "(cmod z)\<^sup>2 = (Re z)\<^sup>2 + (Im z)\<^sup>2" by (rule cmod_power2)
  ultimately have "(Im z)\<^sup>2 \<le> (cmod ?u + Re ?u) / 2" by simp
  then have "sqrt ((Im z)\<^sup>2) \<le> sqrt ((cmod ?u + Re ?u) / 2)" by (rule real_sqrt_le_mono)
  then have "\<bar>Im z\<bar> \<le> Re (csqrt ?u)" by simp
  then show ?thesis by simp
qed

lemma Arg_upper_half:
  assumes "w \<noteq> 0" "0 \<le> Im w"
  shows "0 \<le> Arg w \<and> Arg w \<le> pi"
proof -
  have c: "sgn w = cis (Arg w)" and b: "- pi < Arg w" "Arg w \<le> pi"
    using Arg_correct [OF assms(1)] by simp_all
  have "Im (sgn w) = Im w / cmod w" by (simp add: sgn_div_norm divide_inverse mult.commute)
  then have "0 \<le> Im (sgn w)" using assms by simp
  then have s: "0 \<le> sin (Arg w)" using c by simp
  have "0 \<le> Arg w"
  proof (rule ccontr)
    assume "\<not> 0 \<le> Arg w"
    then have "0 < - Arg w" "- Arg w < pi" using b by simp_all
    then have "0 < sin (- Arg w)" by (rule sin_gt_zero)
    then show False using s by simp
  qed
  then show ?thesis using b by simp
qed



lemma sv_xzx: "statevector (press_keys [''1'', ''3'', ''1'']) = (- 1, 0)"
  by (simp add: press_keys_def key_gates_def statevector_def)


lemma arccos_complex_amp:
  assumes "Re z \<noteq> 0" "Im z \<noteq> 0" "\<bar>Re z\<bar> \<le> 1"
  shows "Arg (z + \<i> * csqrt (1 - z\<^sup>2)) \<noteq> arccos (Re z)"
proof
  let ?w = "z + \<i> * csqrt (1 - z\<^sup>2)" and ?w' = "z - \<i> * csqrt (1 - z\<^sup>2)"
  assume eq: "Arg ?w = arccos (Re z)"
  define r where "r = cmod ?w"
  define a where "a = Arg ?w"
  have r: "0 < r" using wz_nonzero [of z] by (simp add: r_def)
  have ca: "cos a = Re z" using eq assms(3) by (simp add: a_def cos_arccos_abs)
  have w: "rcis r a = ?w" unfolding r_def a_def by (rule rcis_cmod_Arg)
  have "?w' = inverse ?w" using wz_quadratic [of z] wz_nonzero [of z]
    by (simp add: field_simps)
  then have "?w' = inverse (rcis r a)" by (simp only: w)
  then have w': "rcis (1 / r) (- a) = ?w'" by (simp only: rcis_inverse)
  have "Re (rcis r a) + Re (rcis (1 / r) (- a)) = 2 * Re z" unfolding w w' by simp
  then have "r * Re z + Re z / r = 2 * Re z" using ca by simp
  then have "Re z * (r + 1 / r) = Re z * 2" by (simp add: algebra_simps)
  then have "r + 1 / r = 2" using assms(1) by simp
  then have "r * r + 1 = 2 * r" using r by (simp add: field_simps)
  then have "(r - 1) * (r - 1) = 0" by (simp add: algebra_simps)
  then have r1: "r = 1" by simp
  have "Im (rcis r a) + Im (rcis (1 / r) (- a)) = 2 * Im z" unfolding w w' by simp
  then have "Im z = 0" using r1 by simp
  then show False using assms(2) by simp
qed

lemma sv_xh: "fst (statevector (press_keys [''x'', ''h'']))
    = Complex (cos (pi / 12) / sqrt 2) (- sin (pi / 12) / sqrt 2)"
  by (simp add: press_keys_def key_gates_def statevector_def complex_eq_iff)

lemma wz_Re_nonneg:
  assumes "0 \<le> Re z"
  shows "0 \<le> Re (z + \<i> * csqrt (1 - z\<^sup>2))"
proof -
  let ?u = "1 - z\<^sup>2"
  have "cmod ?u \<le> cmod 1 + cmod (z\<^sup>2)" by (rule norm_triangle_ineq4)
  then have "cmod ?u \<le> 1 + (cmod z)\<^sup>2" by (simp add: norm_power)
  moreover have "Re ?u = 1 - (Re z)\<^sup>2 + (Im z)\<^sup>2" by (simp add: power2_eq_square)
  moreover have "(cmod z)\<^sup>2 = (Re z)\<^sup>2 + (Im z)\<^sup>2" by (rule cmod_power2)
  ultimately have "(cmod ?u - Re ?u) / 2 \<le> (Re z)\<^sup>2" by simp
  then have "sqrt ((cmod ?u - Re ?u) / 2) \<le> sqrt ((Re z)\<^sup>2)" by (rule real_sqrt_le_mono)
  then have le: "sqrt ((cmod ?u - Re ?u) / 2) \<le> Re z" using assms by simp
  have "Im (csqrt ?u) \<le> \<bar>Im (csqrt ?u)\<bar>" by simp
  also have "\<dots> \<le> sqrt ((cmod ?u - Re ?u) / 2)"
    using complex_Re_le_cmod [of ?u] by (simp add: abs_mult sgn_if)
  finally have "Im (csqrt ?u) \<le> Re z" using le by simp
  then show ?thesis by simp
qed

lemma Arg_first_quadrant:
  assumes "w \<noteq> 0" "0 \<le> Im w" "0 \<le> Re w"
  shows "Arg w \<le> pi / 2"
proof (rule ccontr)
  assume "\<not> Arg w \<le> pi / 2"
  then have gt: "pi / 2 < Arg w" by simp
  have "Arg w \<le> pi" using Arg_upper_half [OF assms(1,2)] by simp
  then have "cos (Arg w) < cos (pi / 2)" using gt pi_gt_zero by (intro cos_monotone_0_pi) simp_all
  then have neg: "cos (Arg w) < 0" by simp
  have "sgn w = cis (Arg w)" using Arg_correct [OF assms(1)] by simp
  then have "Re (sgn w) = cos (Arg w)" by simp
  moreover have "Re (sgn w) = Re w / cmod w" by (simp add: sgn_div_norm divide_inverse mult.commute)
  moreover have "0 \<le> Re w / cmod w" using assms by simp
  ultimately show False using neg by simp
qed

section \<open>The polar angle\<close>

text \<open>
  C1 (amended). The polar angle is the real part of twice the complex arccosine of the
  first amplitude. It equals \<open>2 arccos (Re a0)\<close> whenever the first amplitude is real with
  magnitude at most 1; for an amplitude with a nonzero imaginary part the two can differ.
\<close>

theorem theta_real_amplitude:
  assumes "Im (fst sv) = 0" "\<bar>Re (fst sv)\<bar> \<le> 1"
  shows "theta sv = 2 * arccos (Re (fst sv))"
  using arccos_real_amp [OF assms] by (simp add: theta_eq)

theorem theta_real_amplitude_witness:
  "Im (fst (statevector [])) = 0 \<and> \<bar>Re (fst (statevector []))\<bar> \<le> 1
   \<and> theta (statevector []) = 2 * arccos (Re (fst (statevector [])))"
  using theta_real_amplitude [of "statevector []"] by (simp add: statevector_def)

text \<open>
  After the keys \<open>x\<close> and \<open>h\<close> the first amplitude is \<open>(cos (\<pi>/12) - \<i> sin (\<pi>/12)) / \<surd>2\<close>,
  and the angle read by the sonifier is not \<open>2 arccos (Re a0)\<close>.
\<close>

theorem theta_complex_amplitude_counterexample:
  "Im (fst (statevector (press_keys [''x'', ''h'']))) \<noteq> 0
   \<and> theta (statevector (press_keys [''x'', ''h'']))
       \<noteq> 2 * arccos (Re (fst (statevector (press_keys [''x'', ''h'']))))"
proof -
  let ?z = "Complex (cos (pi / 12) / sqrt 2) (- sin (pi / 12) / sqrt 2)"
  have c: "0 < cos (pi / 12)" by (rule cos_gt_zero_pi) (use pi_gt_zero in simp_all)
  have s: "0 < sin (pi / 12)" by (rule sin_gt_zero) (use pi_gt_zero in simp_all)
  have "cos (pi / 12) \<le> 1" by simp
  also have "1 \<le> sqrt 2" by simp
  finally have "\<bar>Re ?z\<bar> \<le> 1" using c by simp
  moreover have "Re ?z \<noteq> 0" using c by simp
  moreover have i: "Im ?z \<noteq> 0" using s by simp
  ultimately have "Arg (?z + \<i> * csqrt (1 - ?z\<^sup>2)) \<noteq> arccos (Re ?z)"
    by (intro arccos_complex_amp)
  then show ?thesis using i unfolding theta_eq sv_xh by simp
qed

text \<open>
  C4 (amended). For every state vector the polar angle lies in \<open>[0, 2\<pi>]\<close>, and in
  \<open>[0, \<pi>]\<close> whenever the real part of the first amplitude is not negative.
\<close>

theorem theta_range:
  "0 \<le> theta sv \<and> theta sv \<le> 2 * pi \<and> (0 \<le> Re (fst sv) \<longrightarrow> theta sv \<le> pi)"
proof -
  let ?w = "fst sv + \<i> * csqrt (1 - (fst sv)\<^sup>2)"
  have "0 \<le> Arg ?w \<and> Arg ?w \<le> pi"
    by (rule Arg_upper_half [OF wz_nonzero wz_Im_nonneg])
  moreover have "Arg ?w \<le> pi / 2" if "0 \<le> Re (fst sv)"
    by (rule Arg_first_quadrant [OF wz_nonzero wz_Im_nonneg wz_Re_nonneg [OF that]])
  ultimately show ?thesis unfolding theta_eq by auto
qed

theorem theta_range_witness:
  "0 \<le> Re (fst (statevector [H])) \<and> 0 \<le> theta (statevector [H])
   \<and> theta (statevector [H]) \<le> 2 * pi \<and> theta (statevector [H]) \<le> pi"
  using theta_range [of "statevector [H]"] by (simp add: statevector_def)

text \<open>
  The keys \<open>1\<close>, \<open>3\<close>, \<open>1\<close> (X, Z, X) lead from \<open>(1, 0)\<close> to \<open>(-1, 0)\<close>, where the angle
  is \<open>2\<pi>\<close>.
\<close>

theorem theta_range_counterexample:
  "theta (statevector (press_keys [''1'', ''3'', ''1''])) = 2 * pi
   \<and> \<not> theta (statevector (press_keys [''1'', ''3'', ''1''])) \<le> pi"
proof -
  have "theta (- 1, 0) = 2 * arccos (Re (fst (- 1 :: complex, 0 :: complex)))"
    using arccos_real_amp [of "- 1"] by (simp add: theta_eq)
  then have "theta (- 1, 0) = 2 * pi" by simp
  then show ?thesis using pi_gt_zero by (simp add: sv_xzx)
qed

section \<open>The synthesised buffer\<close>

text \<open>
  C5. For every pair of angles, every frequency \<open>f\<close> and every sample index \<open>i\<close> in
  \<open>0..22049\<close>, with \<open>t\<^sub>i = i / 44100\<close>, the left sample is \<open>cos (\<theta>/2) sin (2\<pi> f t\<^sub>i)\<close> and the
  right sample is \<open>sin (\<theta>/2) sin (2\<pi> f t\<^sub>i 2\<^bsup>\<phi>/(2\<pi>)\<^esup> + \<pi>/2)\<close>; the buffer of a note is
  synthesised from the angles of the current state, whose \<open>\<phi>\<close> lies in \<open>[0, 2\<pi>)\<close>.
  The time vector is the one built where the float count is accepted.
\<close>

theorem synth_samples:
  assumes "i < 22050"
  shows "\<exists>t. time_vector Coerce = Inr t \<and> t ! i = real i / 44100
         \<and> synth t th ph f ! i =
             (cos (th / 2) * sin (2 * pi * f * (real i / 44100)),
              sin (th / 2) * sin (2 * pi * f * (real i / 44100) * 2 powr (ph / (2 * pi)) + pi / 2))
         \<and> note_buffer t circ f = synth t (theta (statevector circ)) (phi (statevector circ)) f
         \<and> 0 \<le> phi (statevector circ) \<and> phi (statevector circ) < 2 * pi"
proof -
  obtain t where t: "time_vector Coerce = Inr t" by (simp add: time_vector_Coerce)
  show ?thesis
    using t time_vector_nth [OF t assms] synth_nth [OF t assms, of th ph f]
      phi_range [of "statevector circ"]
    by (simp add: note_buffer_def Let_def)
qed

theorem synth_samples_witness:
  "(1::nat) < 22050
   \<and> (\<exists>t. time_vector Coerce = Inr t \<and> t ! 1 = 1 / 44100
         \<and> synth t pi 0 441 ! 1 = (0, sin (2 * pi / 100 + pi / 2))
         \<and> note_buffer t [] 441 = synth t (theta (statevector [])) (phi (statevector [])) 441
         \<and> 0 \<le> phi (statevector []) \<and> phi (statevector []) < 2 * pi)"
  using synth_samples [of 1 pi 0 441 "[]"] by simp

text \<open>
  C6. The claim that every note request produces a buffer of 22050 sample pairs fails
  where the float count is rejected: \<open>sound\<close> then raises \<open>TypeError\<close> for every circuit and
  every note, as for the key \<open>a\<close> pressed in the initial state.
\<close>

theorem sound_float_count_rejected:
  "sound Reject circ nm = Inl TypeError \<and> key_press Reject ''a'' [] = ([], [Inl TypeError])"
  by (simp add: sound_def time_vector_Reject key_press_def key_gates_def entry_list_def
      note_list_def upt_rec)

text \<open>
  C9. For every state vector and every note of the pitch table, the buffer before
  normalisation has a strictly positive peak, so the division by the peak never divides
  by zero.
\<close>

theorem peak_positive:
  assumes "nm \<in> set note_list"
  shows "\<exists>t f. time_vector Coerce = Inr t \<and> note_freq nm = Some f
           \<and> 0 < peak (synth t (theta sv) (phi sv) f) \<and> 0 < peak (note_buffer t circ f)"
proof -
  obtain t where t: "time_vector Coerce = Inr t" by (simp add: time_vector_Coerce)
  obtain f where f: "note_freq nm = Some f" "0 < f" "f < 22050"
    using note_freq_range [OF assms] by blast
  show ?thesis using t f(1) synth_peak_pos [OF t f(2,3)] by (simp add: note_buffer_def Let_def)
qed

theorem peak_positive_witness:
  "''C'' \<in> set note_list
   \<and> (\<exists>t f. time_vector Coerce = Inr t \<and> note_freq ''C'' = Some f
           \<and> 0 < peak (synth t (theta (0, 1)) (phi (0, 1)) f) \<and> 0 < peak (note_buffer t [X] f))"
  using peak_positive [of "''C''" "(0, 1)" "[X]"] by (simp add: note_list_def)

section \<open>Normalisation and quantisation of the buffer\<close>

text \<open>
  C10. For every note whose buffer before normalisation has a nonzero peak, every sample
  of the quantised buffer is the scaled sample rounded towards zero and lies in
  \<open>[-32767, 32767]\<close>: nothing wraps in 16 bits.
\<close>

theorem quantised_in_range:
  assumes "note_freq nm = Some f" "time_vector np = Inr t"
    "peak (note_buffer t circ f) \<noteq> 0" "i < 22050"
  shows "\<exists>audio l r. sound np circ nm = Inr audio \<and> audio ! i = (l, r)
           \<and> sint l = trunc (fst (note_buffer t circ f ! i) * (2 ^ 15 - 1) / peak (note_buffer t circ f))
           \<and> sint r = trunc (snd (note_buffer t circ f ! i) * (2 ^ 15 - 1) / peak (note_buffer t circ f))
           \<and> - 32767 \<le> sint l \<and> sint l \<le> 32767 \<and> - 32767 \<le> sint r \<and> sint r \<le> 32767"
proof -
  define buf where "buf = note_buffer t circ f"
  have len: "length buf = 22050"
    using assms(2) by (simp add: buf_def note_buffer_def Let_def length_synth length_time_vector)
  then have i: "i < length buf" using assms(4) by simp
  then have "buf ! i \<in> set buf" by (rule nth_mem)
  then have m: "(fst (buf ! i), snd (buf ! i)) \<in> set buf" by simp
  have bl: "\<bar>fst (buf ! i)\<bar> \<le> peak buf" using peak_ge_fst [OF m] .
  have br: "\<bar>snd (buf ! i)\<bar> \<le> peak buf" using peak_ge_snd [OF m] .
  have pos: "0 < peak buf" using bl assms(3) by (simp add: buf_def)
  define l where "l = astype_int16 (np_div (fst (buf ! i) * (2 ^ 15 - 1)) (peak buf))"
  define r where "r = astype_int16 (np_div (snd (buf ! i) * (2 ^ 15 - 1)) (peak buf))"
  have l: "sint l = trunc (fst (buf ! i) * (2 ^ 15 - 1) / peak buf)"
      "- 32767 \<le> sint l" "sint l \<le> 32767"
    using astype_scaled [OF bl pos] by (simp_all add: l_def)
  have r: "sint r = trunc (snd (buf ! i) * (2 ^ 15 - 1) / peak buf)"
      "- 32767 \<le> sint r" "sint r \<le> 32767"
    using astype_scaled [OF br pos] by (simp_all add: r_def)
  have "sound np circ nm = Inr (quantise (normalise buf))"
    using assms(1,2) by (simp add: sound_def buf_def)
  moreover have "quantise (normalise buf) ! i = (l, r)"
    using quantise_normalise_nth [OF i] by (simp add: l_def r_def)
  ultimately show ?thesis using l r unfolding buf_def by blast
qed

theorem quantised_in_range_witness:
  "note_freq ''A'' = Some 440 \<and> (\<exists>t. time_vector Coerce = Inr t
     \<and> peak (note_buffer t [X] 440) \<noteq> 0 \<and> (0::nat) < 22050
     \<and> (\<exists>audio l r. sound Coerce [X] ''A'' = Inr audio \<and> audio ! 0 = (l, r)
           \<and> sint l = trunc (fst (note_buffer t [X] 440 ! 0) * (2 ^ 15 - 1) / peak (note_buffer t [X] 440))
           \<and> sint r = trunc (snd (note_buffer t [X] 440 ! 0) * (2 ^ 15 - 1) / peak (note_buffer t [X] 440))
           \<and> - 32767 \<le> sint l \<and> sint l \<le> 32767 \<and> - 32767 \<le> sint r \<and> sint r \<le> 32767))"
proof -
  obtain t where t: "time_vector Coerce = Inr t" by (simp add: time_vector_Coerce)
  have a: "note_freq ''A'' = Some 440" by (simp add: note_freq_def)
  have "0 < peak (synth t (theta (statevector [X])) (phi (statevector [X])) 440)"
    by (rule synth_peak_pos [OF t]) simp_all
  then have b: "peak (note_buffer t [X] 440) \<noteq> 0" by (simp add: note_buffer_def Let_def)
  have c: "(0::nat) < 22050" by simp
  show ?thesis using a t b c quantised_in_range [OF a t b c] by blast
qed

end
